theory Spec2Isabelle
  imports Main "HOL-Library.Word" "HOL-Library.Char_ord"
begin

unbundle bit_operations_syntax

section \<open>Data model\<close>

text \<open>
  The class \<open>UUID\<close> of \<open>UUID.ts\<close>: the raw bytes and the two memoised string views
  (\<open>_str\<close> and \<open>_hex\<close> in the source; an unset field is \<open>None\<close>). A \<open>Uint8Array\<close> is
  a list of 8-bit words. A JavaScript string is a list of characters; only the hyphen and
  the hexadecimal digits are ever told apart from the rest.
\<close>

type_synonym byte = "8 word"

record UUID =
  bytes :: "byte list"
  cached_str :: "string option"
  cached_hex :: "string option"

text \<open>
  The values a caller can pass at run time: \<open>null\<close>, \<open>undefined\<close>, a string, a
  \<open>Uint8Array\<close>, a \<open>UUID\<close> instance, any other object (a plain object, a
  \<open>DataView\<close>, ...) and any other primitive (a number, a boolean, ...).
\<close>

datatype UuidInput =
    Null
  | Undefined
  | Str string
  | U8 "byte list"
  | Inst UUID
  | Obj
  | Prim

text \<open>
  Every \<open>throw\<close> of the source, by the place that throws:
  \<^item> \<open>InvalidByteLength\<close>: \<open>version\<close>, "Invalid UUID byte length: expected 16, got n";
  \<^item> \<open>HexLengthError\<close>: \<open>formatHex\<close>, "hex length should be 32";
  \<^item> \<open>ExpectedUint8Array\<close>: the \<open>TypeError\<close> of \<open>parseBytes\<close>;
  \<^item> \<open>InvalidStringLength\<close>: \<open>parse\<close>, "Invalid input string, length should be 36 or 32";
  \<^item> \<open>UnexpectedInput\<close>: \<open>parse\<close>, "Not expected invalid input received: ...";
  \<^item> \<open>TooFewArguments\<close>: \<open>equals\<close>, "At least two UUIDs required for comparison";
  \<^item> \<open>HexFormatError\<close>: the failure of the byte codec \<open>Uint8ArrayUtils.fromHex\<close>.
\<close>

datatype error =
    InvalidByteLength
  | HexLengthError
  | ExpectedUint8Array
  | InvalidStringLength
  | UnexpectedInput
  | TooFewArguments
  | HexFormatError

definition BYTE_LENGTH :: nat where
  "BYTE_LENGTH = 16"

definition STR_LENGTH :: nat where
  "STR_LENGTH = 36"

definition HEX_STR_LENGTH :: nat where
  "HEX_STR_LENGTH = 32"

text \<open>
  Reading a typed array by index: \<open>a[i]\<close> is \<open>undefined\<close> (here \<open>None\<close>) out of
  range. \<open>toInt32\<close> is the conversion the bitwise operators apply to their operand.
\<close>

definition at :: "byte list \<Rightarrow> nat \<Rightarrow> byte option" where
  "at a i = (if i < length a then Some (a ! i) else None)"

definition toInt32 :: "byte option \<Rightarrow> int" where
  "toInt32 v = (case v of None \<Rightarrow> 0 | Some w \<Rightarrow> uint w)"

section \<open>Regular expressions\<close>

text \<open>
  Both patterns are a sequence of character classes, each consuming one character,
  anchored at both ends. The classes: \<open>[0-9a-fA-F]\<close>, \<open>-\<close>, \<open>[1-5]\<close>, \<open>[89abAB]\<close>.
\<close>

datatype cls = HexCls | Hyphen | Ver | Var

fun inCls :: "cls \<Rightarrow> char \<Rightarrow> bool" where
  "inCls HexCls c =
     ((CHR ''0'' \<le> c \<and> c \<le> CHR ''9'') \<or> (CHR ''a'' \<le> c \<and> c \<le> CHR ''f'')
      \<or> (CHR ''A'' \<le> c \<and> c \<le> CHR ''F''))"
| "inCls Hyphen c = (c = CHR ''-'')"
| "inCls Ver c = (CHR ''1'' \<le> c \<and> c \<le> CHR ''5'')"
| "inCls Var c =
     (c = CHR ''8'' \<or> c = CHR ''9'' \<or> c = CHR ''a'' \<or> c = CHR ''b''
      \<or> c = CHR ''A'' \<or> c = CHR ''B'')"

definition REGEX_HEX :: "cls list" where
  "REGEX_HEX =
     replicate 8 HexCls @ replicate 4 HexCls @ [Ver] @ replicate 3 HexCls
     @ [Var] @ replicate 3 HexCls @ replicate 12 HexCls"

definition REGEX_RFC4122 :: "cls list" where
  "REGEX_RFC4122 =
     replicate 8 HexCls @ [Hyphen] @ replicate 4 HexCls @ [Hyphen]
     @ [Ver] @ replicate 3 HexCls @ [Hyphen]
     @ [Var] @ replicate 3 HexCls @ [Hyphen] @ replicate 12 HexCls"

definition test :: "cls list \<Rightarrow> string \<Rightarrow> bool" where
  "test re s = list_all2 inCls re s"

section \<open>Byte codec\<close>

text \<open>
  Modelled from the spec: \<open>Uint8ArrayUtils.fromHex\<close> and \<open>Uint8ArrayUtils.toHex\<close> of
  \<open>./utils\<close>, which is not among the source files. Section 4.1 of the specification:
  \<open>hexToBytes\<close> decodes pairs of hex digits and fails if the string contains non-hex
  characters or is not exactly 32 characters; \<open>bytesToHex\<close> encodes each byte as two
  lowercase hex digits, concatenated, no separators.
\<close>

definition hexVal :: "char \<Rightarrow> nat" where
  "hexVal c =
     (if CHR ''0'' \<le> c \<and> c \<le> CHR ''9'' then of_char c - 48
      else if CHR ''a'' \<le> c \<and> c \<le> CHR ''f'' then of_char c - 87
      else of_char c - 55)"

definition hexChar :: "nat \<Rightarrow> char" where
  "hexChar n = ''0123456789abcdef'' ! n"

fun decodePairs :: "string \<Rightarrow> byte list" where
  "decodePairs (h # l # rest) = word_of_nat (16 * hexVal h + hexVal l) # decodePairs rest"
| "decodePairs _ = []"

definition Uint8ArrayUtils_fromHex :: "string \<Rightarrow> error + byte list" where
  "Uint8ArrayUtils_fromHex hex =
     (if length hex \<noteq> 32 \<or> \<not> list_all (inCls HexCls) hex then Inl HexFormatError
      else Inr (decodePairs hex))"

definition Uint8ArrayUtils_toHex :: "byte list \<Rightarrow> string" where
  "Uint8ArrayUtils_toHex bs =
     concat (map (\<lambda>b. [hexChar (unat b div 16), hexChar (unat b mod 16)]) bs)"

section \<open>Parsing and formatting helpers\<close>

definition formatHex :: "string \<Rightarrow> error + string" where
  "formatHex hex =
     (if length hex \<noteq> HEX_STR_LENGTH then Inl HexLengthError
      else Inr (take 8 hex @ ''-'' @ take 4 (drop 8 hex) @ ''-'' @ take 4 (drop 12 hex)
                @ ''-'' @ take 4 (drop 16 hex) @ ''-'' @ drop 20 hex))"

definition stripHyphens :: "string \<Rightarrow> string" where
  "stripHyphens str = filter (\<lambda>c. c \<noteq> CHR ''-'') str"

definition parseHex :: "string \<Rightarrow> error + byte list" where
  "parseHex hex = Uint8ArrayUtils_fromHex hex"

definition parseString :: "string \<Rightarrow> error + byte list" where
  "parseString str = parseHex (stripHyphens str)"

text \<open>
  \<open>parseBytes\<close> takes whatever it is given at run time: anything that is not a
  \<open>Uint8Array\<close> is a \<open>TypeError\<close>, a \<open>Uint8Array\<close> of any length is copied.
\<close>

definition parseBytes :: "UuidInput \<Rightarrow> error + byte list" where
  "parseBytes input = (case input of U8 b \<Rightarrow> Inr b | _ \<Rightarrow> Inl ExpectedUint8Array)"

definition toBytes :: "UUID \<Rightarrow> byte list" where
  "toBytes u = bytes u"

definition parse :: "UuidInput \<Rightarrow> error + byte list" where
  "parse input =
     (case input of
        Str s \<Rightarrow>
          (if length s = STR_LENGTH then parseString s
           else if length s = HEX_STR_LENGTH then parseHex s
           else Inl InvalidStringLength)
      | U8 b \<Rightarrow> parseBytes (U8 b)
      | Inst u \<Rightarrow> Inr (toBytes u)
      | Null \<Rightarrow> Inl UnexpectedInput
      | Undefined \<Rightarrow> Inl UnexpectedInput
      | Obj \<Rightarrow> Inl UnexpectedInput
      | Prim \<Rightarrow> Inl UnexpectedInput)"

section \<open>Validation helpers and version\<close>

function (sequential) version :: "UuidInput \<Rightarrow> error + int" where
  "version (U8 input) =
     (if length input \<noteq> BYTE_LENGTH then Inl InvalidByteLength
      else Inr (drop_bit 4 (toInt32 (at input 6))))"
| "version input =
     (case parse input of Inl e \<Rightarrow> Inl e | Inr b \<Rightarrow> version (U8 b))"
  by pat_completeness auto
termination
  by (relation "measure (\<lambda>i. case i of U8 _ \<Rightarrow> 0 | _ \<Rightarrow> Suc 0)") auto

definition isValidHex :: "UuidInput \<Rightarrow> bool" where
  "isValidHex hex = (case hex of Str s \<Rightarrow> test REGEX_HEX s | _ \<Rightarrow> False)"

definition isValidString :: "UuidInput \<Rightarrow> bool" where
  "isValidString str = (case str of Str s \<Rightarrow> test REGEX_RFC4122 s | _ \<Rightarrow> False)"

definition isValidBytes :: "byte list \<Rightarrow> error + bool" where
  "isValidBytes bs =
     (if length bs \<noteq> BYTE_LENGTH then Inr False
      else case version (U8 bs) of
        Inl e \<Rightarrow> Inl e
      | Inr v \<Rightarrow>
          if v < 1 \<or> v > 5 then Inr False
          else if drop_bit 6 (toInt32 (at bs 8) AND 0xc0) \<noteq> 2 then Inr False
          else Inr True)"

definition isValid :: "UuidInput \<Rightarrow> error + bool" where
  "isValid input =
     (case input of
        Null \<Rightarrow> Inr False
      | Undefined \<Rightarrow> Inr False
      | Str s \<Rightarrow>
          (if length s = STR_LENGTH then Inr (isValidString (Str s))
           else if length s = HEX_STR_LENGTH then Inr (isValidHex (Str s))
           else Inr False)
      | Inst u \<Rightarrow> isValidBytes (bytes u)
      | U8 b \<Rightarrow> isValidBytes b
      | Obj \<Rightarrow> Inr False
      | Prim \<Rightarrow> Inr False)"

section \<open>Constructor and factory methods\<close>

definition constructor :: "UuidInput \<Rightarrow> error + UUID" where
  "constructor input =
     (case parse input of
        Inl e \<Rightarrow> Inl e
      | Inr b \<Rightarrow> Inr \<lparr>bytes = b, cached_str = None, cached_hex = None\<rparr>)"

definition fromHex :: "string \<Rightarrow> error + UUID" where
  "fromHex hex = (case parseHex hex of Inl e \<Rightarrow> Inl e | Inr b \<Rightarrow> constructor (U8 b))"

definition fromString :: "string \<Rightarrow> error + UUID" where
  "fromString str = (case parseString str of Inl e \<Rightarrow> Inl e | Inr b \<Rightarrow> constructor (U8 b))"

definition fromBytes :: "UuidInput \<Rightarrow> error + UUID" where
  "fromBytes bs = (case parseBytes bs of Inl e \<Rightarrow> Inl e | Inr b \<Rightarrow> constructor (U8 b))"

definition from_input :: "UuidInput \<Rightarrow> error + UUID" where
  "from_input input = (case parse input of Inl e \<Rightarrow> Inl e | Inr b \<Rightarrow> fromBytes (U8 b))"

definition nil :: "error + UUID" where
  "nil = fromBytes (U8 (replicate BYTE_LENGTH 0))"

definition max_uuid :: "error + UUID" where
  "max_uuid = fromBytes (U8 (replicate BYTE_LENGTH 0xFF))"

section \<open>Equality and comparison\<close>

text \<open>
  The inner loop of \<open>equals\<close>: \<open>for (j = 0; j < 16; ++j) if (ref[j] !== b[j]) return false\<close>.
  It answers whether the early \<open>return false\<close> is taken from index \<open>j\<close> on. Two
  reads out of range are both \<open>undefined\<close> and do not differ.
\<close>

function differs :: "byte list \<Rightarrow> byte list \<Rightarrow> nat \<Rightarrow> bool" where
  "differs ref b j =
     (if j < BYTE_LENGTH then (if at ref j \<noteq> at b j then True else differs ref b (j + 1))
      else False)"
  by pat_completeness auto
termination
  by (relation "measure (\<lambda>(ref, b, j). BYTE_LENGTH - j)") auto

text \<open>The outer loop of \<open>equals\<close>, over the arguments after the first.\<close>

fun equals_loop :: "byte list \<Rightarrow> UuidInput list \<Rightarrow> error + bool" where
  "equals_loop ref [] = Inr True"
| "equals_loop ref (input # rest) =
     (if input = Null \<or> input = Undefined then Inr False
      else case parse input of
        Inl e \<Rightarrow> Inl e
      | Inr b \<Rightarrow> if differs ref b 0 then Inr False else equals_loop ref rest)"

definition equals :: "UuidInput list \<Rightarrow> error + bool" where
  "equals inputs =
     (if length inputs < 2 then Inl TooFewArguments
      else if inputs ! 0 = Null \<or> inputs ! 0 = Undefined then Inr False
      else case parse (inputs ! 0) of
        Inl e \<Rightarrow> Inl e
      | Inr ref \<Rightarrow> equals_loop ref (drop 1 inputs))"

text \<open>
  \<open>a[i] < b[i]\<close> on two array reads: with \<open>undefined\<close> on either side the operands
  become \<open>NaN\<close> and the comparison is false.
\<close>

definition js_less :: "byte option \<Rightarrow> byte option \<Rightarrow> bool" where
  "js_less x y = (case (x, y) of (Some v, Some w) \<Rightarrow> v < w | _ \<Rightarrow> False)"

function compare_loop :: "byte list \<Rightarrow> byte list \<Rightarrow> nat \<Rightarrow> int" where
  "compare_loop a b i =
     (if i < BYTE_LENGTH
      then (if at a i \<noteq> at b i then (if js_less (at a i) (at b i) then - 1 else 1)
            else compare_loop a b (i + 1))
      else 0)"
  by pat_completeness auto
termination
  by (relation "measure (\<lambda>(a, b, i). BYTE_LENGTH - i)") auto

definition compare :: "UuidInput \<Rightarrow> UuidInput \<Rightarrow> error + int" where
  "compare uuid1 uuid2 =
     (case parse uuid1 of
        Inl e \<Rightarrow> Inl e
      | Inr a \<Rightarrow>
          (case parse uuid2 of
             Inl e \<Rightarrow> Inl e
           | Inr b \<Rightarrow> Inr (compare_loop a b 0)))"

section \<open>Instance members\<close>

text \<open>
  \<open>toHex\<close> and \<open>toString\<close> fill the instance's cache on first use: each returns its
  result together with the instance as it is afterwards.
\<close>

definition toHex :: "UUID \<Rightarrow> string \<times> UUID" where
  "toHex u =
     (case cached_hex u of
        Some h \<Rightarrow> (h, u)
      | None \<Rightarrow>
          (let h = Uint8ArrayUtils_toHex (bytes u) in (h, u\<lparr>cached_hex := Some h\<rparr>)))"

definition toString :: "UUID \<Rightarrow> error + string \<times> UUID" where
  "toString u =
     (case cached_str u of
        Some s \<Rightarrow> Inr (s, u)
      | None \<Rightarrow>
          (case toHex u of (hex, u') \<Rightarrow>
             (case formatHex hex of
                Inl e \<Rightarrow> Inl e
              | Inr s \<Rightarrow> Inr (s, u'\<lparr>cached_str := Some s\<rparr>))))"

section \<open>The specification's vocabulary\<close>

text \<open>
  The version nibble is the high 4 bits of byte 6 and the variant bits are the top 2 bits
  of byte 8, both read from the byte itself.
\<close>

definition version_nibble :: "byte list \<Rightarrow> byte" where
  "version_nibble b = drop_bit 4 (b ! 6)"

definition variant_bits :: "byte list \<Rightarrow> byte" where
  "variant_bits b = drop_bit 6 (b ! 8)"

text \<open>The bytes of \<open>9e472052-a654-4693-9a8b-3ce57ada3d6c\<close>, the specification's example.\<close>

definition example_bytes :: "byte list" where
  "example_bytes =
     [0x9e, 0x47, 0x20, 0x52, 0xa6, 0x54, 0x46, 0x93,
      0x9a, 0x8b, 0x3c, 0xe5, 0x7a, 0xda, 0x3d, 0x6c]"

text \<open>
  The two string forms, position by position: every position is a hex digit, except for
  the hyphens of the 36-character form, the version character (one of 1 to 5) and the
  variant character (one of 8, 9, a, b, A, B). The byte form: 16 bytes, version nibble
  from 1 to 5, variant bits binary 10.
\<close>

definition hex_digit :: "char \<Rightarrow> bool" where
  "hex_digit c = (c \<in> set ''0123456789abcdefABCDEF'')"

definition rfc4122_form :: "string \<Rightarrow> bool" where
  "rfc4122_form s =
     (length s = 36 \<and>
      (\<forall>i \<in> {0..<36}.
         if i \<in> {8, 13, 18, 23} then s ! i = CHR ''-''
         else if i = 14 then s ! i \<in> set ''12345''
         else if i = 19 then s ! i \<in> set ''89abAB''
         else hex_digit (s ! i)))"

definition hex_form :: "string \<Rightarrow> bool" where
  "hex_form s =
     (length s = 32 \<and>
      (\<forall>i \<in> {0..<32}.
         if i = 12 then s ! i \<in> set ''12345''
         else if i = 16 then s ! i \<in> set ''89abAB''
         else hex_digit (s ! i)))"

definition byte_form :: "byte list \<Rightarrow> bool" where
  "byte_form b =
     (length b = 16 \<and> 1 \<le> version_nibble b \<and> version_nibble b \<le> 5 \<and> variant_bits b = 2)"

text \<open>
  Lower-casing of the ASCII letters, which is all that a string of hex digits and hyphens
  can need, and the instance the constructor builds around a byte array: no string view
  computed yet.
\<close>

definition lower :: "char \<Rightarrow> char" where
  "lower c =
     (case map_of (zip ''ABCDEFGHIJKLMNOPQRSTUVWXYZ'' ''abcdefghijklmnopqrstuvwxyz'') c of
        Some d \<Rightarrow> d
      | None \<Rightarrow> c)"

definition lowercase :: "string \<Rightarrow> string" where
  "lowercase s = map lower s"

definition fresh :: "byte list \<Rightarrow> UUID" where
  "fresh b = \<lparr>bytes = b, cached_str = None, cached_hex = None\<rparr>"

section \<open>Bytes read as numbers\<close>

declare differs.simps [simp del] compare_loop.simps [simp del]

lemma take_bit_byte: "take_bit 8 (uint (w::byte)) = uint w"
  using uint_bounded [of w] by (simp add: take_bit_eq_mod)

lemma version_code: "drop_bit 4 (uint (w::byte)) = uint (drop_bit 4 w)"
  by (simp add: unsigned_drop_bit_eq take_bit_byte)

lemma and_3: "0 \<le> (x::int) \<Longrightarrow> x < 4 \<Longrightarrow> x AND 3 = x"
proof -
  assume a: "0 \<le> x" "x < 4"
  have "x AND mask 2 = take_bit 2 x" by (simp add: take_bit_eq_mask)
  also have "\<dots> = x" using a by (simp add: take_bit_eq_mod)
  finally show ?thesis by (simp add: mask_eq_exp_minus_1)
qed

lemma variant_code: "drop_bit 6 (uint (w::byte)) AND 3 = uint (drop_bit 6 w)"
proof -
  have b: "uint w < 256" using uint_bounded [of w] by simp
  have "drop_bit 6 (uint w) AND 3 = drop_bit 6 (uint w)"
    using b by (intro and_3) (simp_all add: drop_bit_eq_div pos_imp_zdiv_nonneg_iff)
  then show ?thesis by (simp add: unsigned_drop_bit_eq take_bit_byte)
qed

lemma nibble_bound: "uint (drop_bit 4 (w::byte)) \<le> 15"
proof -
  have b: "uint w < 256" using uint_bounded [of w] by simp
  then show ?thesis
    unfolding version_code [symmetric] by (simp add: drop_bit_eq_div)
qed

lemma word_uint_cmp:
  "(1 \<le> (w::byte)) = (1 \<le> uint w)" "(w \<le> 5) = (uint w \<le> 5)" "(w = 2) = (uint w = 2)"
  by (simp_all add: word_le_def word_uint_eq_iff)

lemma idx: "i < length b \<Longrightarrow> at b i = Some (b ! i)"
  by (simp add: at_def)

lemma example_bytes_facts:
  "length example_bytes = 16" "version_nibble example_bytes = 4" "variant_bits example_bytes = 2"
  by (simp_all add: example_bytes_def version_nibble_def variant_bits_def)

section \<open>Construction from bytes\<close>

text \<open>
  C2: construction from a raw byte sequence is claimed to fail unless the sequence has
  exactly 16 bytes. \<open>parseBytes\<close> copies a \<open>Uint8Array\<close> of any length, so
  \<open>fromBytes\<close>, \<open>from\<close> and the constructor all return an instance holding the three
  bytes they were given.
\<close>

theorem fromBytes_accepts_wrong_length:
  "fromBytes (U8 [1, 2, 3]) = Inr \<lparr>bytes = [1, 2, 3], cached_str = None, cached_hex = None\<rparr>
   \<and> from_input (U8 [1, 2, 3]) = fromBytes (U8 [1, 2, 3])
   \<and> constructor (U8 [1, 2, 3]) = fromBytes (U8 [1, 2, 3])"
  by (simp add: from_input_def fromBytes_def parseBytes_def constructor_def parse_def)

text \<open>
  C3: for every 16-byte sequence whose version nibble is between 1 and 5 and whose variant
  bits are binary 10, \<open>fromBytes\<close> succeeds, \<open>toBytes\<close> of the instance gives the same
  bytes back, and \<open>isValidBytes\<close> returns true.
\<close>

theorem fromBytes_toBytes_valid:
  assumes "length b = 16"
    and "1 \<le> version_nibble b" and "version_nibble b \<le> 5"
    and "variant_bits b = 2"
  shows "\<exists>u. fromBytes (U8 b) = Inr u \<and> toBytes u = b \<and> isValidBytes b = Inr True"
  using assms
  by (simp add: fromBytes_def parseBytes_def constructor_def parse_def toBytes_def
      isValidBytes_def BYTE_LENGTH_def idx toInt32_def version_code variant_code
      version_nibble_def variant_bits_def word_uint_cmp)

theorem fromBytes_toBytes_valid_witness:
  "\<exists>u. fromBytes (U8 example_bytes) = Inr u \<and> toBytes u = example_bytes
     \<and> isValidBytes example_bytes = Inr True"
  using fromBytes_toBytes_valid [of example_bytes]
  by (simp add: example_bytes_facts)

section \<open>Version extraction\<close>

text \<open>
  C9: on a 16-byte sequence \<open>version\<close> returns the high nibble of byte 6, a number from 0
  to 15, whatever it is; on a byte sequence of any other length it fails; on any input
  that is not a byte sequence it parses the input and applies itself to the bytes; and
  the version of \<open>9e472052-a654-4693-9a8b-3ce57ada3d6c\<close> parsed by \<open>fromString\<close> is 4.
\<close>

theorem version_reads_high_nibble:
  "(length b = 16 \<longrightarrow>
      version (U8 b) = Inr (uint (version_nibble b))
      \<and> 0 \<le> uint (version_nibble b) \<and> uint (version_nibble b) \<le> 15)
   \<and> (length b \<noteq> 16 \<longrightarrow> version (U8 b) = Inl InvalidByteLength)
   \<and> ((\<forall>b'. input \<noteq> U8 b') \<longrightarrow>
        version input = (case parse input of Inl e \<Rightarrow> Inl e | Inr b' \<Rightarrow> version (U8 b')))
   \<and> (\<exists>u. fromString ''9e472052-a654-4693-9a8b-3ce57ada3d6c'' = Inr u
          \<and> version (Inst u) = Inr 4)"
proof (intro conjI impI)
  assume "length b = 16"
  then show "version (U8 b) = Inr (uint (version_nibble b))"
    by (simp add: BYTE_LENGTH_def idx toInt32_def version_code version_nibble_def)
next
  show "uint (version_nibble b) \<le> 15"
    by (simp add: version_nibble_def nibble_bound)
next
  assume "length b \<noteq> 16"
  then show "version (U8 b) = Inl InvalidByteLength"
    by (simp add: BYTE_LENGTH_def)
next
  assume "\<forall>b'. input \<noteq> U8 b'"
  then show "version input = (case parse input of Inl e \<Rightarrow> Inl e | Inr b' \<Rightarrow> version (U8 b'))"
    by (cases input) simp_all
next
  show "\<exists>u. fromString ''9e472052-a654-4693-9a8b-3ce57ada3d6c'' = Inr u \<and> version (Inst u) = Inr 4"
  proof -
    have "(case fromString ''9e472052-a654-4693-9a8b-3ce57ada3d6c'' of
             Inl e \<Rightarrow> False | Inr u \<Rightarrow> version (Inst u) = Inr 4)"
      by code_simp
    then show ?thesis
      by (cases "fromString ''9e472052-a654-4693-9a8b-3ce57ada3d6c''")
        (simp_all del: version.simps)
  qed
qed simp

theorem version_reads_high_nibble_witness:
  "version (U8 example_bytes) = Inr 4
   \<and> version (U8 [1, 2, 3]) = Inl InvalidByteLength
   \<and> version (Inst \<lparr>bytes = example_bytes, cached_str = None, cached_hex = None\<rparr>)
       = version (U8 example_bytes)"
  using version_reads_high_nibble
      [of example_bytes "Inst \<lparr>bytes = example_bytes, cached_str = None, cached_hex = None\<rparr>"]
    version_reads_high_nibble [of "[1, 2, 3]" Null]
  by (simp add: example_bytes_facts parse_def toBytes_def del: version.simps)

section \<open>The special constants\<close>

text \<open>
  C10: \<open>nil()\<close> and \<open>max()\<close> are constructible and both fail \<open>isValid\<close>: the version
  of the nil UUID is 0, and the variant bits of the max UUID are binary 11.
\<close>

theorem nil_max_not_valid:
  "(\<exists>n. nil = Inr n \<and> isValid (Inst n) = Inr False \<and> version (Inst n) = Inr 0)
   \<and> (\<exists>m. max_uuid = Inr m \<and> isValid (Inst m) = Inr False
          \<and> drop_bit 6 (toInt32 (at (bytes m) 8) AND 0xc0) = 3)"
  by (simp add: nil_def max_uuid_def fromBytes_def parseBytes_def constructor_def parse_def
      isValid_def isValidBytes_def BYTE_LENGTH_def at_def toInt32_def toBytes_def)

section \<open>Equality and ordering\<close>

lemma compare_loop_zero_iff: "compare_loop a b i = 0 \<longleftrightarrow> \<not> differs a b i"
proof (induction a b i rule: compare_loop.induct)
  case (1 a b i)
  show ?case
  proof (cases "i < BYTE_LENGTH \<and> at a i = at b i")
    case True
    then show ?thesis
      using "1.IH" by (simp add: compare_loop.simps [of a b i] differs.simps [of a b i])
  next
    case False
    then show ?thesis
      by (auto simp add: compare_loop.simps [of a b i] differs.simps [of a b i])
  qed
qed

lemma parse_not_nullish: "parse a = Inr x \<Longrightarrow> a \<noteq> Null \<and> a \<noteq> Undefined"
  by (auto simp: parse_def)

lemma differs_iff: "differs a b i \<longleftrightarrow> (\<exists>j. i \<le> j \<and> j < BYTE_LENGTH \<and> at a j \<noteq> at b j)"
proof (induction a b i rule: differs.induct)
  case (1 ref b j)
  show ?case
  proof (cases "j < BYTE_LENGTH \<and> at ref j = at b j")
    case True
    have "(\<exists>k. j \<le> k \<and> k < BYTE_LENGTH \<and> at ref k \<noteq> at b k)
          \<longleftrightarrow> (\<exists>k. j + 1 \<le> k \<and> k < BYTE_LENGTH \<and> at ref k \<noteq> at b k)"
      using True by (metis Suc_eq_plus1 Suc_leI le_neq_implies_less Suc_leD)
    then show ?thesis
      using True "1.IH" by (simp add: differs.simps [of ref b j])
  next
    case False
    then show ?thesis
      by (auto simp add: differs.simps [of ref b j])
  qed
qed

lemma compare_loop_range: "compare_loop a b i \<in> {- 1, 0, 1}"
proof (induction a b i rule: compare_loop.induct)
  case (1 a b i)
  then show ?case by (simp add: compare_loop.simps [of a b i])
qed

lemma compare_loop_flip:
  "length a = 16 \<Longrightarrow> length b = 16 \<Longrightarrow> compare_loop b a i = - compare_loop a b i"
proof (induction a b i rule: compare_loop.induct)
  case (1 a b i)
  show ?case
  proof (cases "i < BYTE_LENGTH")
    case True
    then have i: "i < 16" by (simp add: BYTE_LENGTH_def)
    show ?thesis
      using True "1.IH" "1.prems" i
      by (auto simp add: compare_loop.simps [of a b i] compare_loop.simps [of b a i]
          idx js_less_def)
  next
    case False
    then show ?thesis
      by (simp add: compare_loop.simps [of a b i] compare_loop.simps [of b a i])
  qed
qed

lemma compare_loop_zero_eq:
  assumes "length a = 16" and "length b = 16"
  shows "compare_loop a b 0 = 0 \<longleftrightarrow> a = b"
proof -
  have "compare_loop a b 0 = 0 \<longleftrightarrow> (\<forall>j<16. a ! j = b ! j)"
    using assms by (auto simp add: compare_loop_zero_iff differs_iff BYTE_LENGTH_def idx)
  also have "\<dots> \<longleftrightarrow> a = b"
    using assms by (auto intro: nth_equalityI)
  finally show ?thesis .
qed

lemma compare_loop_trans:
  "length a = 16 \<Longrightarrow> length b = 16 \<Longrightarrow> length c = 16 \<Longrightarrow>
   compare_loop a b i = - 1 \<Longrightarrow> compare_loop b c i = - 1 \<Longrightarrow> compare_loop a c i = - 1"
proof (induction a b i rule: compare_loop.induct)
  case (1 a b i)
  show ?case
  proof (cases "i < BYTE_LENGTH")
    case True
    then have i: "i < 16" by (simp add: BYTE_LENGTH_def)
    show ?thesis
      using True "1.IH" "1.prems" i
      by (auto simp add: compare_loop.simps [of a b i] compare_loop.simps [of b c i]
          compare_loop.simps [of a c i] idx js_less_def split: if_splits)
  next
    case False
    then show ?thesis
      using "1.prems" by (simp add: compare_loop.simps [of a b i])
  qed
qed

lemma equals_loop_null:
  assumes "k < length rest" and "rest ! k = Null \<or> rest ! k = Undefined"
    and "\<forall>i<k. rest ! i = Null \<or> rest ! i = Undefined \<or> (\<exists>b. parse (rest ! i) = Inr b)"
  shows "equals_loop ref rest = Inr False"
  using assms
proof (induction rest arbitrary: k)
  case Nil
  then show ?case by simp
next
  case (Cons input rest)
  show ?case
  proof (cases k)
    case 0
    with Cons.prems show ?thesis by auto
  next
    case (Suc k')
    have h: "input = Null \<or> input = Undefined \<or> (\<exists>b. parse input = Inr b)"
      using Cons.prems(3) Suc by auto
    have r: "equals_loop ref rest = Inr False"
    proof (rule Cons.IH [of k'])
      show "k' < length rest" using Cons.prems(1) Suc by simp
      show "rest ! k' = Null \<or> rest ! k' = Undefined" using Cons.prems(2) Suc by simp
      show "\<forall>i<k'. rest ! i = Null \<or> rest ! i = Undefined \<or> (\<exists>b. parse (rest ! i) = Inr b)"
        using Cons.prems(3) Suc by auto
    qed
    from h r show ?thesis by auto
  qed
qed

text \<open>
  On inputs that parse to exactly 16 bytes, \<open>compare\<close> returns \<open>-1\<close>, \<open>0\<close> or \<open>1\<close>,
  is reflexive, antisymmetric and transitive, and returns \<open>0\<close> only on equal bytes.
\<close>

lemma compare_order_on_16_bytes:
  assumes "parse a = Inr x" and "length x = 16"
    and "parse b = Inr y" and "length y = 16"
    and "parse c = Inr z" and "length z = 16"
  shows "compare a a = Inr 0"
    and "\<exists>r. compare a b = Inr r \<and> compare b a = Inr (- r) \<and> r \<in> {- 1, 0, 1}"
    and "compare a b = Inr 0 \<longleftrightarrow> x = y"
    and "compare a b = Inr (- 1) \<Longrightarrow> compare b c = Inr (- 1) \<Longrightarrow> compare a c = Inr (- 1)"
proof -
  show "compare a a = Inr 0"
    using assms(1,2) by (simp add: compare_def compare_loop_zero_eq)
  show "\<exists>r. compare a b = Inr r \<and> compare b a = Inr (- r) \<and> r \<in> {- 1, 0, 1}"
    using assms(1-4) compare_loop_range [of x y 0]
    by (simp add: compare_def compare_loop_flip [of x y 0])
  show "compare a b = Inr 0 \<longleftrightarrow> x = y"
    using assms(1-4) by (simp add: compare_def compare_loop_zero_eq)
  show "compare a b = Inr (- 1) \<Longrightarrow> compare b c = Inr (- 1) \<Longrightarrow> compare a c = Inr (- 1)"
    using assms compare_loop_trans [of x y z 0] by (simp add: compare_def)
qed

text \<open>
  C5: \<open>compare\<close> is claimed to be a strict total order on all parseable inputs, with
  \<open>compare(a,b) == -compare(b,a)\<close>. The empty byte sequence and the sequence of 16
  zero bytes both parse, and \<open>compare\<close> returns 1 on them in either order: the reads
  past the end of the shorter array are \<open>undefined\<close>, which differs from every byte and
  is less than none.
\<close>

theorem compare_not_antisymmetric:
  "parse (U8 []) = Inr [] \<and> parse (U8 (replicate 16 0)) = Inr (replicate 16 0)
   \<and> compare (U8 []) (U8 (replicate 16 0)) = Inr 1
   \<and> compare (U8 (replicate 16 0)) (U8 []) = Inr 1"
  by code_simp

text \<open>
  C6: for parseable \<open>a\<close> and \<open>b\<close>, \<open>equals(a, b)\<close> returns a boolean, and returns true
  exactly when \<open>compare(a, b)\<close> returns 0; and \<open>equals(a, null)\<close> (likewise
  \<open>undefined\<close>) returns false without throwing.
\<close>

theorem equals_iff_compare_zero:
  assumes "parse a = Inr x" and "parse b = Inr y"
  shows "(equals [a, b] = Inr True \<longleftrightarrow> compare a b = Inr 0)
         \<and> (\<exists>r. equals [a, b] = Inr r)
         \<and> equals [a, Null] = Inr False \<and> equals [a, Undefined] = Inr False"
  using assms parse_not_nullish [OF assms(1)] parse_not_nullish [OF assms(2)]
  by (auto simp add: equals_def compare_def compare_loop_zero_iff)

theorem equals_iff_compare_zero_witness:
  "equals [U8 example_bytes, Str ''9e472052-a654-4693-9a8b-3ce57ada3d6c''] = Inr True
   \<and> compare (U8 example_bytes) (Str ''9e472052-a654-4693-9a8b-3ce57ada3d6c'') = Inr 0
   \<and> equals [U8 example_bytes, Null] = Inr False"
proof -
  have p: "parse (U8 example_bytes) = Inr example_bytes"
    "parse (Str ''9e472052-a654-4693-9a8b-3ce57ada3d6c'') = Inr example_bytes"
    by code_simp+
  have c: "compare (U8 example_bytes) (Str ''9e472052-a654-4693-9a8b-3ce57ada3d6c'') = Inr 0"
    by code_simp
  show ?thesis
    using equals_iff_compare_zero [OF p] c by simp
qed

text \<open>
  C8: \<open>equals\<close> with fewer than two arguments fails; with two or more arguments it
  returns false, without throwing, whenever some argument (the first or a later one) is
  \<open>null\<close> or \<open>undefined\<close> and every argument before it that is neither parses.
\<close>

theorem equals_arity_and_null:
  "(length inputs < 2 \<longrightarrow> equals inputs = Inl TooFewArguments)
   \<and> (2 \<le> length inputs \<and> k < length inputs
        \<and> (inputs ! k = Null \<or> inputs ! k = Undefined)
        \<and> (\<forall>i<k. inputs ! i = Null \<or> inputs ! i = Undefined
                  \<or> (\<exists>b. parse (inputs ! i) = Inr b))
      \<longrightarrow> equals inputs = Inr False)"
proof (intro conjI impI)
  assume "length inputs < 2"
  then show "equals inputs = Inl TooFewArguments" by (simp add: equals_def)
next
  assume a: "2 \<le> length inputs \<and> k < length inputs
        \<and> (inputs ! k = Null \<or> inputs ! k = Undefined)
        \<and> (\<forall>i<k. inputs ! i = Null \<or> inputs ! i = Undefined
                  \<or> (\<exists>b. parse (inputs ! i) = Inr b))"
  show "equals inputs = Inr False"
  proof (cases "inputs ! 0 = Null \<or> inputs ! 0 = Undefined")
    case True
    with a show ?thesis by (simp add: equals_def)
  next
    case False
    then have k: "0 < k" using a by (cases k) auto
    from a have kl: "k < length inputs" by simp
    then obtain ref where ref: "parse (inputs ! 0) = Inr ref" using a False by blast
    have "equals_loop ref (drop 1 inputs) = Inr False"
    proof (rule equals_loop_null [of "k - 1"])
      show "k - 1 < length (drop 1 inputs)" using kl k by simp
      show "drop 1 inputs ! (k - 1) = Null \<or> drop 1 inputs ! (k - 1) = Undefined"
        using a k by simp
      show "\<forall>i<k - 1. drop 1 inputs ! i = Null \<or> drop 1 inputs ! i = Undefined
              \<or> (\<exists>b. parse (drop 1 inputs ! i) = Inr b)"
        using a k by auto
    qed
    with a False ref show ?thesis by (simp add: equals_def)
  qed
qed

theorem equals_arity_and_null_witness:
  "equals [U8 example_bytes] = Inl TooFewArguments
   \<and> equals [U8 example_bytes, U8 example_bytes, Undefined, Prim] = Inr False"
proof -
  have p: "parse (U8 example_bytes) = Inr example_bytes" by code_simp
  show ?thesis
    using equals_arity_and_null [of "[U8 example_bytes]" 0]
      equals_arity_and_null [of "[U8 example_bytes, U8 example_bytes, Undefined, Prim]" 2]
    by (simp add: p less_Suc_eq numeral_2_eq_2)
qed

section \<open>Validation\<close>

text \<open>The regular expressions accept exactly the two string forms.\<close>

lemma char_eq_code: "(c = d) = (of_char c = (of_char d :: nat))"
  by simp

lemma inCls_HexCls: "inCls HexCls c = hex_digit c"
  unfolding inCls.simps hex_digit_def less_eq_char_def list.set insert_iff empty_iff
    char_eq_code [of c]
  by simp arith

lemma inCls_Ver: "inCls Ver c = (c \<in> set ''12345'')"
  unfolding inCls.simps less_eq_char_def list.set insert_iff empty_iff char_eq_code [of c]
  by simp arith

lemma inCls_Var: "inCls Var c = (c \<in> set ''89abAB'')"
  by auto

lemma REGEX_RFC4122_nth:
  "\<forall>i \<in> {0..<36}. REGEX_RFC4122 ! i =
     (if i \<in> {8, 13, 18, 23} then Hyphen else if i = 14 then Ver
      else if i = 19 then Var else HexCls)"
  by code_simp

lemma REGEX_HEX_nth:
  "\<forall>i \<in> {0..<32}. REGEX_HEX ! i =
     (if i = 12 then Ver else if i = 16 then Var else HexCls)"
  by code_simp

lemma REGEX_lengths: "length REGEX_RFC4122 = 36" "length REGEX_HEX = 32"
  by (simp_all add: REGEX_RFC4122_def REGEX_HEX_def)

lemma test_REGEX_RFC4122: "test REGEX_RFC4122 s = rfc4122_form s"
proof -
  have "test REGEX_RFC4122 s
        \<longleftrightarrow> length s = 36 \<and> (\<forall>i \<in> {0..<36}. inCls (REGEX_RFC4122 ! i) (s ! i))"
    by (auto simp add: test_def list_all2_conv_all_nth REGEX_lengths)
  also have "\<dots> \<longleftrightarrow> rfc4122_form s"
    unfolding rfc4122_form_def
    using REGEX_RFC4122_nth
    by (intro conj_cong refl ball_cong) (simp add: inCls_HexCls inCls_Ver inCls_Var del: inCls.simps(1,3,4))
  finally show ?thesis .
qed

lemma test_REGEX_HEX: "test REGEX_HEX s = hex_form s"
proof -
  have "test REGEX_HEX s
        \<longleftrightarrow> length s = 32 \<and> (\<forall>i \<in> {0..<32}. inCls (REGEX_HEX ! i) (s ! i))"
    by (auto simp add: test_def list_all2_conv_all_nth REGEX_lengths)
  also have "\<dots> \<longleftrightarrow> hex_form s"
    unfolding hex_form_def
    using REGEX_HEX_nth
    by (intro conj_cong refl ball_cong) (simp add: inCls_HexCls inCls_Ver inCls_Var del: inCls.simps(1,3,4))
  finally show ?thesis .
qed

lemma isValidBytes_byte_form: "isValidBytes b = Inr (byte_form b)"
  by (simp add: isValidBytes_def byte_form_def BYTE_LENGTH_def idx toInt32_def
      version_code variant_code version_nibble_def variant_bits_def word_uint_cmp)

text \<open>
  C7: \<open>isValid\<close> returns a boolean on every input and never throws; it returns true
  exactly on a 36-character string of the hyphenated form, a 32-character string of the
  hex form, and a \<open>Uint8Array\<close> or \<open>UUID\<close> whose bytes have the byte form.
\<close>

theorem isValid_total_and_exact:
  "isValid input =
     Inr (case input of
            Str s \<Rightarrow> rfc4122_form s \<or> hex_form s
          | U8 b \<Rightarrow> byte_form b
          | Inst u \<Rightarrow> byte_form (bytes u)
          | _ \<Rightarrow> False)"
proof (cases input)
  case (Str s)
  have "rfc4122_form s \<Longrightarrow> length s = 36" "hex_form s \<Longrightarrow> length s = 32"
    by (simp_all add: rfc4122_form_def hex_form_def)
  then show ?thesis
    using Str
    by (auto simp add: isValid_def isValidString_def isValidHex_def STR_LENGTH_def
        HEX_STR_LENGTH_def test_REGEX_RFC4122 test_REGEX_HEX)
qed (simp_all add: isValid_def isValidBytes_byte_form)

theorem isValid_total_and_exact_witness:
  "isValid (Str ''9e472052-a654-4693-9a8b-3ce57ada3d6c'') = Inr True
   \<and> isValid (Str ''9e472052a65446939a8b3ce57ada3d6c'') = Inr True
   \<and> isValid (Str ''not-a-uuid'') = Inr False
   \<and> isValid (U8 example_bytes) = Inr True
   \<and> isValid (U8 [1, 2, 3]) = Inr False
   \<and> isValid Null = Inr False \<and> isValid Obj = Inr False"
proof -
  have e: "rfc4122_form ''9e472052-a654-4693-9a8b-3ce57ada3d6c''"
    "hex_form ''9e472052a65446939a8b3ce57ada3d6c''"
    "\<not> rfc4122_form ''not-a-uuid''" "\<not> hex_form ''not-a-uuid''"
    "byte_form example_bytes" "\<not> byte_form [1, 2, 3]"
    by code_simp+
  show ?thesis
    using isValid_total_and_exact [of "Str ''9e472052-a654-4693-9a8b-3ce57ada3d6c''"]
      isValid_total_and_exact [of "Str ''9e472052a65446939a8b3ce57ada3d6c''"]
      isValid_total_and_exact [of "Str ''not-a-uuid''"]
      isValid_total_and_exact [of "U8 example_bytes"]
      isValid_total_and_exact [of "U8 [1, 2, 3]"]
      isValid_total_and_exact [of Null] isValid_total_and_exact [of Obj]
    by (simp add: e)
qed

section \<open>Strings: parsing and formatting\<close>

text \<open>
  The byte codec on hex digits: a digit's value is below 16 and encodes back to the
  lower-case digit, so encoding the decoded pairs lower-cases the string.
\<close>

lemma length_decodePairs: "length (decodePairs hs) = length hs div 2"
  by (induction hs rule: decodePairs.induct) simp_all

lemma hex_digit_code: "hex_digit h \<Longrightarrow> hexVal h < 16 \<and> hexChar (hexVal h) = lower h"
proof -
  assume "hex_digit h"
  then have "h = CHR ''0'' \<or> h = CHR ''1'' \<or> h = CHR ''2'' \<or> h = CHR ''3'' \<or> h = CHR ''4''
      \<or> h = CHR ''5'' \<or> h = CHR ''6'' \<or> h = CHR ''7'' \<or> h = CHR ''8'' \<or> h = CHR ''9''
      \<or> h = CHR ''a'' \<or> h = CHR ''b'' \<or> h = CHR ''c'' \<or> h = CHR ''d'' \<or> h = CHR ''e''
      \<or> h = CHR ''f'' \<or> h = CHR ''A'' \<or> h = CHR ''B'' \<or> h = CHR ''C'' \<or> h = CHR ''D''
      \<or> h = CHR ''E'' \<or> h = CHR ''F''"
    by (simp add: hex_digit_def)
  then show ?thesis
    by (elim disjE; hypsubst; simp add: hexVal_def hexChar_def lower_def less_eq_char_def)
qed

lemma hex_digit_not_hyphen: "hex_digit h \<Longrightarrow> h \<noteq> CHR ''-''"
  by (auto simp add: hex_digit_def)

lemma byte_of_nibbles:
  assumes "a < 16" and "b < 16"
  shows "unat (16 * word_of_nat a + word_of_nat b :: byte) div 16 = a"
    and "unat (16 * word_of_nat a + word_of_nat b :: byte) mod 16 = b"
proof -
  have w: "(16 * word_of_nat a + word_of_nat b :: byte) = word_of_nat (16 * a + b)"
    by simp
  have "unat (word_of_nat (16 * a + b) :: byte) = (16 * a + b) mod 2 ^ LENGTH(8)"
    by (rule unat_of_nat)
  also have "\<dots> = 16 * a + b" using assms by simp
  finally have u: "unat (16 * word_of_nat a + word_of_nat b :: byte) = 16 * a + b"
    unfolding w .
  show "unat (16 * word_of_nat a + word_of_nat b :: byte) div 16 = a"
    and "unat (16 * word_of_nat a + word_of_nat b :: byte) mod 16 = b"
    unfolding u using assms by simp_all
qed

lemma toHex_decodePairs:
  "list_all hex_digit hs \<Longrightarrow> even (length hs) \<Longrightarrow>
   Uint8ArrayUtils_toHex (decodePairs hs) = lowercase hs"
proof (induction hs rule: decodePairs.induct)
  case (1 h l rest)
  then have r: "Uint8ArrayUtils_toHex (decodePairs rest) = lowercase rest" by simp
  from "1.prems" have h: "hex_digit h" "hex_digit l" by simp_all
  show ?case
    using r hex_digit_code [OF h(1)] hex_digit_code [OF h(2)]
    by (simp add: Uint8ArrayUtils_toHex_def lowercase_def byte_of_nibbles)
qed (simp_all add: Uint8ArrayUtils_toHex_def lowercase_def)

lemma cls_hex:
  "list_all2 inCls re x \<Longrightarrow> Hyphen \<notin> set re \<Longrightarrow> length x = length re \<and> list_all hex_digit x"
proof (induction re x rule: list_all2_induct)
  case Nil
  then show ?case by simp
next
  case (Cons c re x xs)
  have "hex_digit x"
    using Cons.hyps(1) Cons.prems
    by (cases c) (auto simp add: inCls_HexCls [symmetric] inCls_Ver less_eq_char_def)
  with Cons show ?case by simp
qed

lemma stripHyphens_hex: "list_all hex_digit x \<Longrightarrow> stripHyphens x = x"
  by (induction x) (simp_all add: stripHyphens_def hex_digit_not_hyphen)

lemma stripHyphens_append: "stripHyphens (x @ y) = stripHyphens x @ stripHyphens y"
  by (simp add: stripHyphens_def)

lemma stripHyphens_hyphen: "stripHyphens (CHR ''-'' # x) = stripHyphens x"
  by (simp add: stripHyphens_def)

lemma rfc_decompose:
  assumes "rfc4122_form s"
  shows "\<exists>a b c d e. s = a @ ''-'' @ b @ ''-'' @ c @ ''-'' @ d @ ''-'' @ e
           \<and> length a = 8 \<and> length b = 4 \<and> length c = 4 \<and> length d = 4 \<and> length e = 12
           \<and> list_all hex_digit a \<and> list_all hex_digit b \<and> list_all hex_digit c
           \<and> list_all hex_digit d \<and> list_all hex_digit e"
proof -
  from assms have "list_all2 inCls
      (replicate 8 HexCls @ Hyphen # replicate 4 HexCls @ Hyphen # (Ver # replicate 3 HexCls)
       @ Hyphen # (Var # replicate 3 HexCls) @ Hyphen # replicate 12 HexCls) s"
    by (simp add: test_REGEX_RFC4122 [symmetric] test_def REGEX_RFC4122_def)
  then obtain a r1 where a: "s = a @ r1" "list_all2 inCls (replicate 8 HexCls) a"
    and 1: "list_all2 inCls (Hyphen # replicate 4 HexCls @ Hyphen # (Ver # replicate 3 HexCls)
       @ Hyphen # (Var # replicate 3 HexCls) @ Hyphen # replicate 12 HexCls) r1"
    unfolding list_all2_append1 by blast
  from 1 obtain r1' where r1: "r1 = CHR ''-'' # r1'"
    and 2: "list_all2 inCls (replicate 4 HexCls @ Hyphen # (Ver # replicate 3 HexCls)
       @ Hyphen # (Var # replicate 3 HexCls) @ Hyphen # replicate 12 HexCls) r1'"
    unfolding list_all2_Cons1 by auto
  from 2 obtain b r2 where b: "r1' = b @ r2" "list_all2 inCls (replicate 4 HexCls) b"
    and 3: "list_all2 inCls (Hyphen # (Ver # replicate 3 HexCls)
       @ Hyphen # (Var # replicate 3 HexCls) @ Hyphen # replicate 12 HexCls) r2"
    unfolding list_all2_append1 by blast
  from 3 obtain r2' where r2: "r2 = CHR ''-'' # r2'"
    and 4: "list_all2 inCls ((Ver # replicate 3 HexCls)
       @ Hyphen # (Var # replicate 3 HexCls) @ Hyphen # replicate 12 HexCls) r2'"
    unfolding list_all2_Cons1 by auto
  from 4 obtain c r3 where c: "r2' = c @ r3" "list_all2 inCls (Ver # replicate 3 HexCls) c"
    and 5: "list_all2 inCls (Hyphen # (Var # replicate 3 HexCls) @ Hyphen # replicate 12 HexCls) r3"
    unfolding list_all2_append1 by blast
  from 5 obtain r3' where r3: "r3 = CHR ''-'' # r3'"
    and 6: "list_all2 inCls ((Var # replicate 3 HexCls) @ Hyphen # replicate 12 HexCls) r3'"
    unfolding list_all2_Cons1 by auto
  from 6 obtain d r4 where d: "r3' = d @ r4" "list_all2 inCls (Var # replicate 3 HexCls) d"
    and 7: "list_all2 inCls (Hyphen # replicate 12 HexCls) r4"
    unfolding list_all2_append1 by blast
  from 7 obtain e where r4: "r4 = CHR ''-'' # e"
    and e: "list_all2 inCls (replicate 12 HexCls) e"
    unfolding list_all2_Cons1 by auto
  have "s = a @ ''-'' @ b @ ''-'' @ c @ ''-'' @ d @ ''-'' @ e"
    using a(1) r1 b(1) r2 c(1) r3 d(1) r4 by simp
  moreover have "length a = 8 \<and> list_all hex_digit a" using cls_hex [OF a(2)] by simp
  moreover have "length b = 4 \<and> list_all hex_digit b" using cls_hex [OF b(2)] by simp
  moreover have "length c = 4 \<and> list_all hex_digit c" using cls_hex [OF c(2)] by simp
  moreover have "length d = 4 \<and> list_all hex_digit d" using cls_hex [OF d(2)] by simp
  moreover have "length e = 12 \<and> list_all hex_digit e" using cls_hex [OF e] by simp
  ultimately show ?thesis by blast
qed

lemma inCls_HexCls_fun: "inCls HexCls = hex_digit"
  by (rule ext) (rule inCls_HexCls)

lemma fromHex_codec:
  "Uint8ArrayUtils_fromHex h =
     (if length h = 32 \<and> list_all hex_digit h then Inr (decodePairs h) else Inl HexFormatError)"
  by (simp add: Uint8ArrayUtils_fromHex_def inCls_HexCls_fun)

lemma constructor_bytes: "constructor (U8 b) = Inr (fresh b)"
  by (simp add: constructor_def parse_def parseBytes_def fresh_def)

lemma fromBytes_bytes: "fromBytes (U8 b) = Inr (fresh b)"
  by (simp add: fromBytes_def parseBytes_def constructor_bytes)

lemma formatHex_parts:
  "length a = 8 \<Longrightarrow> length b = 4 \<Longrightarrow> length c = 4 \<Longrightarrow> length d = 4 \<Longrightarrow> length e = 12 \<Longrightarrow>
   formatHex (a @ b @ c @ d @ e) = Inr (a @ ''-'' @ b @ ''-'' @ c @ ''-'' @ d @ ''-'' @ e)"
  by (simp add: formatHex_def HEX_STR_LENGTH_def)

lemma lower_hyphen: "lower CHR ''-'' = CHR ''-''"
  by (simp add: lower_def)

lemma rfc_strip:
  assumes "rfc4122_form s"
  shows "length (stripHyphens s) = 32" and "list_all hex_digit (stripHyphens s)"
    and "formatHex (lowercase (stripHyphens s)) = Inr (lowercase s)"
proof -
  from rfc_decompose [OF assms] obtain a b c d e
    where s: "s = a @ ''-'' @ b @ ''-'' @ c @ ''-'' @ d @ ''-'' @ e"
      and l: "length a = 8" "length b = 4" "length c = 4" "length d = 4" "length e = 12"
      and h: "list_all hex_digit a" "list_all hex_digit b" "list_all hex_digit c"
        "list_all hex_digit d" "list_all hex_digit e"
    by blast
  have st: "stripHyphens s = a @ b @ c @ d @ e"
    unfolding s using h
    by (simp add: stripHyphens_append stripHyphens_hyphen stripHyphens_hex)
  show "length (stripHyphens s) = 32" unfolding st using l by simp
  show "list_all hex_digit (stripHyphens s)" unfolding st using h by simp
  have "formatHex (lowercase a @ lowercase b @ lowercase c @ lowercase d @ lowercase e)
        = Inr (lowercase a @ ''-'' @ lowercase b @ ''-'' @ lowercase c @ ''-'' @ lowercase d
               @ ''-'' @ lowercase e)"
    using l by (intro formatHex_parts) (simp_all add: lowercase_def)
  then show "formatHex (lowercase (stripHyphens s)) = Inr (lowercase s)"
    unfolding st unfolding s by (simp add: lowercase_def lower_hyphen)
qed

lemma hex_strip:
  assumes "hex_form h"
  shows "length h = 32" and "list_all hex_digit h"
proof -
  have "list_all2 inCls REGEX_HEX h"
    using assms by (simp add: test_REGEX_HEX [symmetric] test_def)
  moreover have "Hyphen \<notin> set REGEX_HEX" by (simp add: REGEX_HEX_def)
  ultimately have "length h = length REGEX_HEX \<and> list_all hex_digit h" by (rule cls_hex)
  then show "length h = 32" and "list_all hex_digit h" by (simp_all add: REGEX_lengths)
qed

text \<open>
  C4: for every string \<open>s\<close> of the canonical 36-character form, \<open>fromString(s)\<close>
  succeeds and \<open>toString()\<close> of the result is \<open>s\<close> in lower case; for every string
  \<open>h\<close> of the 32-character hex form, \<open>fromHex(h)\<close> succeeds and \<open>toHex()\<close> of the
  result is \<open>h\<close> in lower case.
\<close>

theorem string_roundtrip_lowercase:
  "(rfc4122_form s \<longrightarrow> (\<exists>u u'. fromString s = Inr u \<and> toString u = Inr (lowercase s, u')))
   \<and> (hex_form h \<longrightarrow> (\<exists>u u'. fromHex h = Inr u \<and> toHex u = (lowercase h, u')))"
proof (intro conjI impI)
  assume a: "rfc4122_form s"
  have f: "fromString s = Inr (fresh (decodePairs (stripHyphens s)))"
    using rfc_strip(1,2) [OF a]
    by (simp add: fromString_def parseString_def parseHex_def fromHex_codec constructor_bytes)
  have "Uint8ArrayUtils_toHex (decodePairs (stripHyphens s)) = lowercase (stripHyphens s)"
    using rfc_strip(1,2) [OF a] by (intro toHex_decodePairs) simp_all
  then have "\<exists>u'. toString (fresh (decodePairs (stripHyphens s))) = Inr (lowercase s, u')"
    using rfc_strip(3) [OF a] by (simp add: toString_def toHex_def fresh_def Let_def)
  with f show "\<exists>u u'. fromString s = Inr u \<and> toString u = Inr (lowercase s, u')" by blast
next
  assume a: "hex_form h"
  have f: "fromHex h = Inr (fresh (decodePairs h))"
    using hex_strip [OF a] by (simp add: fromHex_def parseHex_def fromHex_codec constructor_bytes)
  have "Uint8ArrayUtils_toHex (decodePairs h) = lowercase h"
    using hex_strip [OF a] by (intro toHex_decodePairs) simp_all
  then have "\<exists>u'. toHex (fresh (decodePairs h)) = (lowercase h, u')"
    by (simp add: toHex_def fresh_def Let_def)
  with f show "\<exists>u u'. fromHex h = Inr u \<and> toHex u = (lowercase h, u')" by blast
qed

theorem string_roundtrip_lowercase_witness:
  "(\<exists>u u'. fromString ''9E472052-A654-4693-9A8B-3CE57ADA3D6C'' = Inr u
      \<and> toString u = Inr (''9e472052-a654-4693-9a8b-3ce57ada3d6c'', u'))
   \<and> (\<exists>u u'. fromHex ''9E472052A65446939A8B3CE57ADA3D6C'' = Inr u
      \<and> toHex u = (''9e472052a65446939a8b3ce57ada3d6c'', u'))"
proof -
  have e: "rfc4122_form ''9E472052-A654-4693-9A8B-3CE57ADA3D6C''"
    "hex_form ''9E472052A65446939A8B3CE57ADA3D6C''"
    "lowercase ''9E472052-A654-4693-9A8B-3CE57ADA3D6C'' = ''9e472052-a654-4693-9a8b-3ce57ada3d6c''"
    "lowercase ''9E472052A65446939A8B3CE57ADA3D6C'' = ''9e472052a65446939a8b3ce57ada3d6c''"
    by code_simp+
  show ?thesis
    using string_roundtrip_lowercase
      [of "''9E472052-A654-4693-9A8B-3CE57ADA3D6C''" "''9E472052A65446939A8B3CE57ADA3D6C''"]
    by (simp add: e)
qed

text \<open>
  C1, as the code has it: a string of length 36 parses (through \<open>parse\<close>,
  \<open>fromString\<close>, \<open>from\<close> and the constructor alike) to 16 bytes exactly when what is
  left after removing every hyphen is 32 hex digits, and fails with the codec's format
  error otherwise. Every string of the canonical form parses. Neither the places of the
  hyphens nor the version and variant characters are looked at.
\<close>

theorem parse_string_36:
  assumes "length s = 36"
  shows "(if length (stripHyphens s) = 32 \<and> list_all hex_digit (stripHyphens s)
          then \<exists>b. length b = 16 \<and> parse (Str s) = Inr b \<and> fromString s = Inr (fresh b)
                 \<and> from_input (Str s) = Inr (fresh b) \<and> constructor (Str s) = Inr (fresh b)
          else parse (Str s) = Inl HexFormatError \<and> fromString s = Inl HexFormatError
                 \<and> from_input (Str s) = Inl HexFormatError
                 \<and> constructor (Str s) = Inl HexFormatError)
         \<and> (rfc4122_form s \<longrightarrow>
               length (stripHyphens s) = 32 \<and> list_all hex_digit (stripHyphens s))"
proof -
  have p: "parse (Str s) = Uint8ArrayUtils_fromHex (stripHyphens s)"
    using assms by (simp add: parse_def STR_LENGTH_def parseString_def parseHex_def)
  show ?thesis
    using rfc_strip(1,2) [of s]
    by (simp add: p fromString_def from_input_def constructor_def [of "Str s"] parseString_def
        parseHex_def fromHex_codec constructor_bytes fromBytes_bytes length_decodePairs fresh_def)
qed

theorem parse_string_36_witness:
  "(\<exists>b. length b = 16 \<and> parse (Str ''9e472052-a654-4693-9a8b-3ce57ada3d6c'') = Inr b)
   \<and> parse (Str ''9e472052-a654-4693-9a8b-3ce57ada3d6g'') = Inl HexFormatError"
proof -
  have e: "length ''9e472052-a654-4693-9a8b-3ce57ada3d6c'' = 36"
    "length ''9e472052-a654-4693-9a8b-3ce57ada3d6g'' = 36"
    "length (stripHyphens ''9e472052-a654-4693-9a8b-3ce57ada3d6c'') = 32"
    "list_all hex_digit (stripHyphens ''9e472052-a654-4693-9a8b-3ce57ada3d6c'')"
    "\<not> list_all hex_digit (stripHyphens ''9e472052-a654-4693-9a8b-3ce57ada3d6g'')"
    by code_simp+
  show ?thesis
    using parse_string_36 [OF e(1)] parse_string_36 [OF e(2)]
    by (auto simp add: e(3-5))
qed

text \<open>
  C1, as claimed, says that a 36-character string parses only if it has the canonical
  form. The string of the nil UUID has version character 0 and variant character 0, and
  a string with its four hyphens in front has them in the wrong places: neither has the
  canonical form, and both parse.
\<close>

theorem parse_ignores_pattern:
  "length ''00000000-0000-0000-0000-000000000000'' = 36
   \<and> \<not> rfc4122_form ''00000000-0000-0000-0000-000000000000''
   \<and> \<not> isValidString (Str ''00000000-0000-0000-0000-000000000000'')
   \<and> parse (Str ''00000000-0000-0000-0000-000000000000'') = Inr (replicate 16 0)
   \<and> fromString ''00000000-0000-0000-0000-000000000000'' = Inr (fresh (replicate 16 0))
   \<and> from_input (Str ''00000000-0000-0000-0000-000000000000'') = Inr (fresh (replicate 16 0))
   \<and> constructor (Str ''00000000-0000-0000-0000-000000000000'') = Inr (fresh (replicate 16 0))
   \<and> length ''----9e472052a65446939a8b3ce57ada3d6c'' = 36
   \<and> \<not> rfc4122_form ''----9e472052a65446939a8b3ce57ada3d6c''
   \<and> parse (Str ''----9e472052a65446939a8b3ce57ada3d6c'') = Inr example_bytes"
  by code_simp

end
